theory Spec2Isabelle
  imports Main
begin

section \<open>Python strings\<close>










section \<open>Licenses and legal codes\<close>

text \<open>
  The fields of \<^verbatim>\<open>License\<close> and \<^verbatim>\<open>LegalCode\<close> that the functions below read, over
  the character type \<open>'c\<close>.
\<close>

record 'c license =
  license_code :: "'c list"
  version :: "'c list"
  jurisdiction_code :: "'c list"

record 'c legal_code =
  license :: "'c license"
  language_code :: "'c list"


text \<open>The BY 4.0 legal code in a given language, for examples.\<close>

definition by4_in :: "string \<Rightarrow> char legal_code" where
  "by4_in lang =
     \<lparr>license = \<lparr>license_code = ''by'', version = ''4.0'', jurisdiction_code = []\<rparr>,
      language_code = lang\<rparr>"

section \<open>Message catalogs (polib)\<close>

text \<open>
  A \<^verbatim>\<open>polib.POEntry\<close> carries the message key \<^verbatim>\<open>msgid\<close> and the translation
  \<^verbatim>\<open>msgstr\<close>; its remaining attributes (context, comments, flags, ...) are never
  touched by the code below and live in the extension slot of the record.
\<close>

record entry =
  msgid :: string
  msgstr :: string

type_synonym 'a pofile = "'a entry_scheme list"

datatype error = ValueError string

text \<open>
  \<^verbatim>\<open>{entry.msgid: entry.msgstr for entry in english_pofile}\<close>, from the entries read in
  catalog order: a later entry overwrites an earlier one with the same key.
\<close>

definition internal_key_to_english_message :: "'a pofile \<Rightarrow> (string \<rightharpoonup> string)" where
  "internal_key_to_english_message english_pofile =
     foldl (\<lambda>d entry. d(msgid entry \<mapsto> msgstr entry)) Map.empty english_pofile"

definition missing_message :: "string \<Rightarrow> string" where
  "missing_message k =
     ''Our English pofile has no message for the key '' @ k @
     '', something is wrong with the translation files.''"

subsection \<open>\<^verbatim>\<open>LegalCode.get_pofile_with_english_msgids\<close>, on a store of objects\<close>

text \<open>
  Catalogs and their entries are mutable objects, and the method rewrites entry objects
  in place.  The store keeps the entry objects and the catalog objects, each kind
  addressed by its index; a catalog object (\<^verbatim>\<open>polib.POFile\<close>, a Python list) is the list
  of the addresses of its entries, in which one entry object may be listed more than
  once.  Allocation appends to the store.
\<close>

type_synonym addr = nat

record 'a heap =
  entry_objs :: "'a entry_scheme list"
  pofile_objs :: "addr list list"

text \<open>The entries of a catalog, as values, in catalog order.\<close>

definition read_pofile :: "'a heap \<Rightarrow> addr \<Rightarrow> 'a pofile" where
  "read_pofile h p = map (\<lambda>a. entry_objs h ! a) (pofile_objs h ! p)"

text \<open>
  References held by a Python program never dangle: a catalog is valid in a store when
  it and the entries it lists are allocated.
\<close>

definition valid_pofile :: "'a heap \<Rightarrow> addr \<Rightarrow> bool" where
  "valid_pofile h p \<longleftrightarrow>
     p < length (pofile_objs h) \<and> (\<forall>a\<in>set (pofile_objs h ! p). a < length (entry_objs h))"

text \<open>The attribute assignments \<^verbatim>\<open>entry.msgid = v\<close> and \<^verbatim>\<open>entry.msgstr = v\<close>.\<close>

definition set_msgid :: "'a heap \<Rightarrow> addr \<Rightarrow> string \<Rightarrow> 'a heap" where
  "set_msgid h a v = h\<lparr>entry_objs := (entry_objs h)[a := (entry_objs h ! a)\<lparr>msgid := v\<rparr>]\<rparr>"

definition set_msgstr :: "'a heap \<Rightarrow> addr \<Rightarrow> string \<Rightarrow> 'a heap" where
  "set_msgstr h a v = h\<lparr>entry_objs := (entry_objs h)[a := (entry_objs h ! a)\<lparr>msgstr := v\<rparr>]\<rparr>"

text \<open>
  \<^verbatim>\<open>copy.deepcopy\<close> of a catalog: every entry object met for the first time is copied to
  a fresh address and remembered in the memo; an entry object met again is represented
  by the copy made before.  The copied catalog is a fresh catalog object.
\<close>

fun deepcopy_entries :: "'a heap \<Rightarrow> (addr \<times> addr) list \<Rightarrow> addr list \<Rightarrow> 'a heap \<times> addr list" where
  "deepcopy_entries h memo [] = (h, [])"
| "deepcopy_entries h memo (a # as) =
     (case map_of memo a of
        Some a' \<Rightarrow>
          (case deepcopy_entries h memo as of (h', bs) \<Rightarrow> (h', a' # bs))
      | None \<Rightarrow>
          (let a' = length (entry_objs h);
               h1 = h\<lparr>entry_objs := entry_objs h @ [entry_objs h ! a]\<rparr>
           in case deepcopy_entries h1 ((a, a') # memo) as of (h', bs) \<Rightarrow> (h', a' # bs)))"

definition deepcopy :: "'a heap \<Rightarrow> addr \<Rightarrow> 'a heap \<times> addr" where
  "deepcopy h p =
     (case deepcopy_entries h [] (pofile_objs h ! p) of
        (h1, refs) \<Rightarrow> (h1\<lparr>pofile_objs := pofile_objs h1 @ [refs]\<rparr>, length (pofile_objs h1)))"

text \<open>
  \<^verbatim>\<open>for entry in new_pofile: entry.msgid = entry.msgstr; entry.msgstr = ""\<close>
\<close>

fun loop_default_st :: "'a heap \<Rightarrow> addr list \<Rightarrow> 'a heap" where
  "loop_default_st h [] = h"
| "loop_default_st h (a # as) =
     (let h1 = set_msgid h a (msgstr (entry_objs h ! a));
          h2 = set_msgstr h1 a []
      in loop_default_st h2 as)"

text \<open>
  The second loop: the first entry whose current key is not in the dictionary raises;
  the entries before it have already been rewritten.
\<close>

fun loop_translated_st :: "(string \<rightharpoonup> string) \<Rightarrow> 'a heap \<Rightarrow> addr list \<Rightarrow> error option \<times> 'a heap" where
  "loop_translated_st d h [] = (None, h)"
| "loop_translated_st d h (a # as) =
     (case d (msgid (entry_objs h ! a)) of
        None \<Rightarrow> (Some (ValueError (missing_message (msgid (entry_objs h ! a)))), h)
      | Some english \<Rightarrow> loop_translated_st d (set_msgid h a english) as)"

text \<open>
  The method on the store: \<open>pofile\<close> and \<open>english_pofile\<close> are the addresses of the catalog
  objects that \<^verbatim>\<open>self.get_pofile()\<close> and \<^verbatim>\<open>self.get_english_pofile()\<close> return; they
  are loaded outside this module and are arguments here, as is the constant
  \<^verbatim>\<open>DEFAULT_LANGUAGE_CODE\<close> of the package \<^verbatim>\<open>i18n\<close>.  The result is the raised error
  or the address of the new catalog, with the store after the call.
\<close>

definition get_pofile_with_english_msgids_st ::
  "'c list \<Rightarrow> 'c legal_code \<Rightarrow> addr \<Rightarrow> addr \<Rightarrow> 'a heap \<Rightarrow> (error + addr) \<times> 'a heap" where
  "get_pofile_with_english_msgids_st DEFAULT_LANGUAGE_CODE self pofile english_pofile h =
     (case deepcopy h pofile of
        (h1, new_pofile) \<Rightarrow>
          if language_code self = DEFAULT_LANGUAGE_CODE
          then (Inr new_pofile, loop_default_st h1 (pofile_objs h1 ! new_pofile))
          else
            let d = internal_key_to_english_message (read_pofile h1 english_pofile) in
            (case loop_translated_st d h1 (pofile_objs h1 ! new_pofile) of
               (Some err, h2) \<Rightarrow> (Inl err, h2)
             | (None, h2) \<Rightarrow> (Inr new_pofile, h2)))"

subsection \<open>The method on catalogs that list every entry object once\<close>

text \<open>
  When no entry object is listed twice in the catalog, each entry is visited once and
  the method is a function of the entries read from the two catalogs: the copy holds
  the same entries and each loop rewrites them one by one.  The functions below compute
  on these values, and \<open>st_refines\<close> shows that the method on the store returns what they
  compute for such catalogs.  They say nothing about a catalog that lists an entry
  object twice, where the second visit meets the entry as the first visit left it.
\<close>

fun loop_default :: "'a pofile \<Rightarrow> 'a pofile" where
  "loop_default [] = []"
| "loop_default (entry # rest) =
     ((entry\<lparr>msgid := msgstr entry\<rparr>)\<lparr>msgstr := []\<rparr>) # loop_default rest"

fun loop_translated :: "(string \<rightharpoonup> string) \<Rightarrow> 'a pofile \<Rightarrow> error + 'a pofile" where
  "loop_translated d [] = Inr []"
| "loop_translated d (entry # rest) =
     (case d (msgid entry) of
        None \<Rightarrow> Inl (ValueError (missing_message (msgid entry)))
      | Some english \<Rightarrow>
          (case loop_translated d rest of
             Inl err \<Rightarrow> Inl err
           | Inr rest' \<Rightarrow> Inr (entry\<lparr>msgid := english\<rparr> # rest')))"

definition get_pofile_with_english_msgids ::
  "'c list \<Rightarrow> 'c legal_code \<Rightarrow> 'a pofile \<Rightarrow> 'a pofile \<Rightarrow> error + 'a pofile" where
  "get_pofile_with_english_msgids DEFAULT_LANGUAGE_CODE self pofile english_pofile =
     (let new_pofile = pofile in
      if language_code self = DEFAULT_LANGUAGE_CODE then Inr (loop_default new_pofile)
      else
        let d = internal_key_to_english_message english_pofile in
        loop_translated d new_pofile)"

subsection \<open>A store for examples\<close>


section \<open>The example legal codes\<close>

lemma language_code_by4_in [simp]: "language_code (by4_in lang) = lang"
  by (simp add: by4_in_def)

section \<open>Properties of the loops\<close>

lemma loop_default_map:
  "loop_default es = map (\<lambda>e. e\<lparr>msgid := msgstr e, msgstr := []\<rparr>) es"
  by (induction es) simp_all

lemma length_loop_default: "length (loop_default es) = length es"
  by (simp add: loop_default_map)


section \<open>The key-to-English dictionary\<close>








section \<open>The substitution loop\<close>

lemma loop_translated_Inr_iff:
  "loop_translated d C = Inr out \<longleftrightarrow>
     list_all2 (\<lambda>e e'. \<exists>t. d (msgid e) = Some t \<and> e' = e\<lparr>msgid := t\<rparr>) C out"
proof (induction C arbitrary: out)
  case Nil
  show ?case by auto
next
  case (Cons e C)
  show ?case
  proof (cases "d (msgid e)")
    case None
    then show ?thesis by (auto simp: list_all2_Cons1)
  next
    case (Some t)
    show ?thesis
    proof (cases "loop_translated d C")
      case (Inl err)
      with Some Cons.IH show ?thesis
        by (auto simp: list_all2_Cons1)
    next
      case (Inr rest')
      with Some Cons.IH show ?thesis
        by (auto simp: list_all2_Cons1)
    qed
  qed
qed

lemma loop_translated_nth:
  assumes "loop_translated d C = Inr out"
  shows "length out = length C"
    and "i < length C \<Longrightarrow> \<exists>t. d (msgid (C ! i)) = Some t \<and> out ! i = (C ! i)\<lparr>msgid := t\<rparr>"
  using assms unfolding loop_translated_Inr_iff
  by (auto simp: list_all2_conv_all_nth)




lemma non_default_unfold:
  "language_code self \<noteq> dflt \<Longrightarrow>
     get_pofile_with_english_msgids dflt self C D =
       loop_translated (internal_key_to_english_message D) C"
  by (simp add: get_pofile_with_english_msgids_def)

section \<open>Catalogs that list every entry object once\<close>






section \<open>The example of the specification\<close>

text \<open>
  C8: with the English catalog \<open>[(s1a, Adapted Material), (s1b, Copyright)]\<close> and a French
  catalog with the same two keys, the call returns the French catalog with its keys
  replaced by \<open>Adapted Material\<close> and \<open>Copyright\<close>, the French texts kept; with the key
  \<open>s1c\<close> in place of \<open>s1b\<close>, or added to the catalog, it raises for \<open>s1c\<close>.
  In the French texts \<open>CHR 0xE9\<close> is the letter e with acute accent and \<open>CHR 0x27\<close> the
  apostrophe.
\<close>

theorem spec_example:
  "get_pofile_with_english_msgids ''en'' (by4_in ''fr'')
     [\<lparr>msgid = ''s1a'', msgstr = ''Mat'' @ [CHR 0xE9] @ ''riel Adapt'' @ [CHR 0xE9]\<rparr>,
      \<lparr>msgid = ''s1b'', msgstr = ''Droit d'' @ [CHR 0x27] @ ''auteur''\<rparr>]
     [\<lparr>msgid = ''s1a'', msgstr = ''Adapted Material''\<rparr>,
      \<lparr>msgid = ''s1b'', msgstr = ''Copyright''\<rparr>] =
   Inr [\<lparr>msgid = ''Adapted Material'',
         msgstr = ''Mat'' @ [CHR 0xE9] @ ''riel Adapt'' @ [CHR 0xE9]\<rparr>,
        \<lparr>msgid = ''Copyright'', msgstr = ''Droit d'' @ [CHR 0x27] @ ''auteur''\<rparr>] \<and>
   get_pofile_with_english_msgids ''en'' (by4_in ''fr'')
     [\<lparr>msgid = ''s1a'', msgstr = ''Mat'' @ [CHR 0xE9] @ ''riel Adapt'' @ [CHR 0xE9]\<rparr>,
      \<lparr>msgid = ''s1c'', msgstr = ''Droit d'' @ [CHR 0x27] @ ''auteur''\<rparr>]
     [\<lparr>msgid = ''s1a'', msgstr = ''Adapted Material''\<rparr>,
      \<lparr>msgid = ''s1b'', msgstr = ''Copyright''\<rparr>] =
   Inl (ValueError
     ''Our English pofile has no message for the key s1c, something is wrong with the translation files.'') \<and>
   get_pofile_with_english_msgids ''en'' (by4_in ''fr'')
     [\<lparr>msgid = ''s1a'', msgstr = ''Mat'' @ [CHR 0xE9] @ ''riel Adapt'' @ [CHR 0xE9]\<rparr>,
      \<lparr>msgid = ''s1b'', msgstr = ''Droit d'' @ [CHR 0x27] @ ''auteur''\<rparr>,
      \<lparr>msgid = ''s1c'', msgstr = ''Licence''\<rparr>]
     [\<lparr>msgid = ''s1a'', msgstr = ''Adapted Material''\<rparr>,
      \<lparr>msgid = ''s1b'', msgstr = ''Copyright''\<rparr>] =
   Inl (ValueError
     ''Our English pofile has no message for the key s1c, something is wrong with the translation files.'')"
  by (simp add: get_pofile_with_english_msgids_def
      internal_key_to_english_message_def missing_message_def)

section \<open>The method on the store refines the method on values\<close>

lemma upt_block: "[n ..< Suc (n + k)] = n # [Suc n ..< Suc (n + k)]"
  by (rule upt_conv_Cons) simp

lemma deepcopy_entries_fresh:
  assumes "distinct as" and "set as \<inter> fst ` set memo = {}"
    and "\<forall>a\<in>set as. a < length (entry_objs h)"
  shows "deepcopy_entries h memo as =
           (h\<lparr>entry_objs := entry_objs h @ map (\<lambda>a. entry_objs h ! a) as\<rparr>,
            [length (entry_objs h) ..< length (entry_objs h) + length as])"
  using assms
proof (induction as arbitrary: h memo)
  case Nil
  show ?case by simp
next
  case (Cons a as)
  let ?h1 = "h\<lparr>entry_objs := entry_objs h @ [entry_objs h ! a]\<rparr>"
  let ?n = "length (entry_objs h)"
  from Cons.prems(2) have none: "map_of memo a = None"
    by (auto simp: map_of_eq_None_iff)
  have d: "distinct as" using Cons.prems(1) by simp
  have m: "set as \<inter> fst ` set ((a, ?n) # memo) = {}"
    using Cons.prems(1,2) by auto
  have v: "\<forall>b\<in>set as. b < length (entry_objs ?h1)"
    using Cons.prems(3) by auto
  have same: "map ((!) (entry_objs h @ [entry_objs h ! a])) as = map ((!) (entry_objs h)) as"
    using Cons.prems(3) by (auto simp: nth_append)
  have "deepcopy_entries ?h1 ((a, ?n) # memo) as =
          (?h1\<lparr>entry_objs := entry_objs ?h1 @ map (\<lambda>b. entry_objs ?h1 ! b) as\<rparr>,
           [length (entry_objs ?h1) ..< length (entry_objs ?h1) + length as])"
    by (rule Cons.IH [OF d m v])
  then have "deepcopy_entries ?h1 ((a, ?n) # memo) as =
          (h\<lparr>entry_objs := entry_objs h @ map (\<lambda>b. entry_objs h ! b) (a # as)\<rparr>,
           [Suc ?n ..< Suc ?n + length as])"
    by (simp add: same del: upt_Suc)
  with none show ?case
    by (simp add: Let_def upt_block del: upt_Suc)
qed

lemma deepcopy_fresh:
  assumes "valid_pofile h p" and "distinct (pofile_objs h ! p)"
  shows "deepcopy h p =
           (h\<lparr>entry_objs := entry_objs h @ read_pofile h p,
              pofile_objs := pofile_objs h @
                [[length (entry_objs h) ..< length (entry_objs h) + length (read_pofile h p)]]\<rparr>,
            length (pofile_objs h))"
proof -
  have "deepcopy_entries h [] (pofile_objs h ! p) =
           (h\<lparr>entry_objs := entry_objs h @ map (\<lambda>a. entry_objs h ! a) (pofile_objs h ! p)\<rparr>,
            [length (entry_objs h) ..< length (entry_objs h) + length (pofile_objs h ! p)])"
    using assms by (intro deepcopy_entries_fresh) (auto simp: valid_pofile_def)
  then show ?thesis
    by (simp add: deepcopy_def read_pofile_def)
qed

lemma loop_default_st_block:
  assumes "entry_objs h = pre @ es @ post"
  shows "loop_default_st h [length pre ..< length pre + length es] =
           h\<lparr>entry_objs := pre @ loop_default es @ post\<rparr>"
  using assms
proof (induction es arbitrary: pre h)
  case Nil
  then show ?case by simp
next
  case (Cons e es)
  let ?e' = "e\<lparr>msgid := msgstr e, msgstr := []\<rparr>"
  let ?h2 = "set_msgstr (set_msgid h (length pre) (msgstr (entry_objs h ! length pre))) (length pre) []"
  have h2: "?h2 = h\<lparr>entry_objs := (pre @ [?e']) @ es @ post\<rparr>"
    using Cons.prems by (simp add: set_msgstr_def set_msgid_def nth_append list_update_append)
  have "loop_default_st ?h2 [length (pre @ [?e']) ..< length (pre @ [?e']) + length es] =
          ?h2\<lparr>entry_objs := (pre @ [?e']) @ loop_default es @ post\<rparr>"
    by (rule Cons.IH) (simp add: h2)
  then have "loop_default_st ?h2 [Suc (length pre) ..< Suc (length pre) + length es] =
          h\<lparr>entry_objs := pre @ loop_default (e # es) @ post\<rparr>"
    by (simp add: h2 del: upt_Suc)
  then show ?case
    by (simp add: upt_block Let_def del: upt_Suc)
qed

lemma loop_translated_st_block:
  assumes "entry_objs h = pre @ es @ post"
  shows "case loop_translated d es of
           Inr es' \<Rightarrow> loop_translated_st d h [length pre ..< length pre + length es] =
                       (None, h\<lparr>entry_objs := pre @ es' @ post\<rparr>)
         | Inl err \<Rightarrow> \<exists>es'. length es' = length es \<and>
                       loop_translated_st d h [length pre ..< length pre + length es] =
                       (Some err, h\<lparr>entry_objs := pre @ es' @ post\<rparr>)"
  using assms
proof (induction es arbitrary: pre h)
  case Nil
  then show ?case by simp
next
  case (Cons e es)
  have at: "entry_objs h ! length pre = e"
    using Cons.prems by (simp add: nth_append)
  have up: "[length pre ..< length pre + length (e # es)] =
              length pre # [Suc (length pre) ..< Suc (length pre) + length es]"
    by (simp add: upt_block del: upt_Suc)
  show ?case
  proof (cases "d (msgid e)")
    case None
    have "h\<lparr>entry_objs := pre @ (e # es) @ post\<rparr> = h"
      using Cons.prems by simp
    with None at show ?thesis
      unfolding up by (auto intro!: exI [of _ "e # es"])
  next
    case (Some t)
    let ?e' = "e\<lparr>msgid := t\<rparr>"
    let ?h1 = "set_msgid h (length pre) t"
    have h1: "?h1 = h\<lparr>entry_objs := (pre @ [?e']) @ es @ post\<rparr>"
      using Cons.prems by (simp add: set_msgid_def nth_append list_update_append)
    have step: "loop_translated_st d h [length pre ..< length pre + length (e # es)] =
                loop_translated_st d ?h1 [length (pre @ [?e']) ..< length (pre @ [?e']) + length es]"
      unfolding up using Some at by simp
    have IH: "case loop_translated d es of
           Inr es' \<Rightarrow> loop_translated_st d ?h1 [length (pre @ [?e']) ..< length (pre @ [?e']) + length es] =
                       (None, ?h1\<lparr>entry_objs := (pre @ [?e']) @ es' @ post\<rparr>)
         | Inl err \<Rightarrow> \<exists>es'. length es' = length es \<and>
                       loop_translated_st d ?h1 [length (pre @ [?e']) ..< length (pre @ [?e']) + length es] =
                       (Some err, ?h1\<lparr>entry_objs := (pre @ [?e']) @ es' @ post\<rparr>)"
      by (rule Cons.IH) (simp add: h1)
    show ?thesis
    proof (cases "loop_translated d es")
      case (Inl err)
      with IH obtain es' where "length es' = length es"
        and "loop_translated_st d ?h1 [length (pre @ [?e']) ..< length (pre @ [?e']) + length es] =
                       (Some err, ?h1\<lparr>entry_objs := (pre @ [?e']) @ es' @ post\<rparr>)"
        by auto
      then have "length (?e' # es') = length (e # es) \<and>
           loop_translated_st d h [length pre ..< length pre + length (e # es)] =
             (Some err, h\<lparr>entry_objs := pre @ (?e' # es') @ post\<rparr>)"
        unfolding step by (simp add: h1)
      then have "\<exists>es''. length es'' = length (e # es) \<and>
           loop_translated_st d h [length pre ..< length pre + length (e # es)] =
             (Some err, h\<lparr>entry_objs := pre @ es'' @ post\<rparr>)"
        by (rule exI)
      with Inl Some show ?thesis by simp
    next
      case (Inr es')
      with IH have "loop_translated_st d ?h1 [length (pre @ [?e']) ..< length (pre @ [?e']) + length es] =
                       (None, ?h1\<lparr>entry_objs := (pre @ [?e']) @ es' @ post\<rparr>)"
        by simp
      then have "loop_translated_st d h [length pre ..< length pre + length (e # es)] =
             (None, h\<lparr>entry_objs := pre @ (?e' # es') @ post\<rparr>)"
        unfolding step by (simp add: h1)
      with Inr Some show ?thesis by simp
    qed
  qed
qed


lemma read_block: "map ((!) (xs @ ys)) [length xs ..< length xs + length ys] = ys"
  by (rule nth_equalityI) (simp_all add: nth_append del: upt_Suc)

lemma read_pofile_extend:
  assumes "valid_pofile h q"
  shows "read_pofile (h\<lparr>entry_objs := entry_objs h @ es, pofile_objs := pofile_objs h @ ps\<rparr>) q =
           read_pofile h q"
  using assms by (auto simp: read_pofile_def valid_pofile_def nth_append)

lemma st_refines:
  assumes p: "valid_pofile h p" and dist: "distinct (pofile_objs h ! p)"
    and e: "valid_pofile h e"
  shows "\<exists>es'. length es' = length (read_pofile h p) \<and>
           snd (get_pofile_with_english_msgids_st dflt self p e h) =
             h\<lparr>entry_objs := entry_objs h @ es',
                pofile_objs := pofile_objs h @
                  [[length (entry_objs h) ..< length (entry_objs h) + length (read_pofile h p)]]\<rparr> \<and>
           (case get_pofile_with_english_msgids dflt self (read_pofile h p) (read_pofile h e) of
              Inr out \<Rightarrow>
                fst (get_pofile_with_english_msgids_st dflt self p e h) = Inr (length (pofile_objs h)) \<and>
                es' = out
            | Inl err \<Rightarrow> fst (get_pofile_with_english_msgids_st dflt self p e h) = Inl err)"
proof -
  let ?C = "read_pofile h p"
  let ?n = "length (entry_objs h)"
  let ?refs = "[?n ..< ?n + length ?C]"
  let ?h1 = "h\<lparr>entry_objs := entry_objs h @ ?C, pofile_objs := pofile_objs h @ [?refs]\<rparr>"
  have copy: "deepcopy h p = (?h1, length (pofile_objs h))"
    using p dist by (rule deepcopy_fresh)
  have refs: "pofile_objs ?h1 ! length (pofile_objs h) = ?refs"
    by simp
  have eo1: "entry_objs ?h1 = entry_objs h @ ?C @ []"
    by simp
  have upd: "?h1\<lparr>entry_objs := entry_objs h @ es @ []\<rparr> =
             h\<lparr>entry_objs := entry_objs h @ es, pofile_objs := pofile_objs h @ [?refs]\<rparr>" for es
    by simp
  show ?thesis
  proof (cases "language_code self = dflt")
    case True
    have "loop_default_st ?h1 ?refs = ?h1\<lparr>entry_objs := entry_objs h @ loop_default ?C @ []\<rparr>"
      using eo1 by (rule loop_default_st_block)
    then have "get_pofile_with_english_msgids_st dflt self p e h =
        (Inr (length (pofile_objs h)),
         h\<lparr>entry_objs := entry_objs h @ loop_default ?C, pofile_objs := pofile_objs h @ [?refs]\<rparr>)"
      using True copy refs by (simp add: get_pofile_with_english_msgids_st_def del: upt_Suc)
    moreover have "get_pofile_with_english_msgids dflt self ?C (read_pofile h e) =
        Inr (loop_default ?C)"
      using True by (simp add: get_pofile_with_english_msgids_def)
    ultimately show ?thesis
      by (intro exI [of _ "loop_default ?C"]) (simp add: length_loop_default)
  next
    case False
    let ?d = "internal_key_to_english_message (read_pofile h e)"
    have d1: "internal_key_to_english_message (read_pofile ?h1 e) = ?d"
      using e by (simp only: read_pofile_extend)
    have pure: "get_pofile_with_english_msgids dflt self ?C (read_pofile h e) =
        loop_translated ?d ?C"
      using False by (rule non_default_unfold)
    have st: "get_pofile_with_english_msgids_st dflt self p e h =
        (case loop_translated_st ?d ?h1 ?refs of
           (Some err, h2) \<Rightarrow> (Inl err, h2)
         | (None, h2) \<Rightarrow> (Inr (length (pofile_objs h)), h2))"
      using False copy refs d1
      by (simp add: get_pofile_with_english_msgids_st_def del: upt_Suc)
    have block: "case loop_translated ?d ?C of
           Inr es' \<Rightarrow> loop_translated_st ?d ?h1 ?refs =
                       (None, ?h1\<lparr>entry_objs := entry_objs h @ es' @ []\<rparr>)
         | Inl err \<Rightarrow> \<exists>es'. length es' = length ?C \<and>
                       loop_translated_st ?d ?h1 ?refs =
                       (Some err, ?h1\<lparr>entry_objs := entry_objs h @ es' @ []\<rparr>)"
      using eo1 by (rule loop_translated_st_block)
    show ?thesis
    proof (cases "loop_translated ?d ?C")
      case (Inl err)
      with block obtain es' where "length es' = length ?C"
        and "loop_translated_st ?d ?h1 ?refs =
               (Some err, ?h1\<lparr>entry_objs := entry_objs h @ es' @ []\<rparr>)"
        by auto
      with Inl pure st show ?thesis
        by (intro exI [of _ es']) (simp del: upt_Suc)
    next
      case (Inr out)
      with block have "loop_translated_st ?d ?h1 ?refs =
               (None, ?h1\<lparr>entry_objs := entry_objs h @ out @ []\<rparr>)"
        by simp
      with Inr pure st loop_translated_nth(1) [OF Inr] show ?thesis
        by (intro exI [of _ out]) (simp del: upt_Suc)
    qed
  qed
qed


lemma st_outcome:
  assumes "valid_pofile h p" and "distinct (pofile_objs h ! p)" and "valid_pofile h e"
  obtains (ok) out where
      "get_pofile_with_english_msgids dflt self (read_pofile h p) (read_pofile h e) = Inr out"
      "length out = length (pofile_objs h ! p)"
      "get_pofile_with_english_msgids_st dflt self p e h =
         (Inr (length (pofile_objs h)),
          h\<lparr>entry_objs := entry_objs h @ out,
             pofile_objs := pofile_objs h @
               [[length (entry_objs h) ..< length (entry_objs h) + length out]]\<rparr>)"
  | (fail) err es' where
      "get_pofile_with_english_msgids dflt self (read_pofile h p) (read_pofile h e) = Inl err"
      "length es' = length (pofile_objs h ! p)"
      "get_pofile_with_english_msgids_st dflt self p e h =
         (Inl err,
          h\<lparr>entry_objs := entry_objs h @ es',
             pofile_objs := pofile_objs h @
               [[length (entry_objs h) ..< length (entry_objs h) + length es']]\<rparr>)"
proof -
  from st_refines [OF assms, of dflt self]
  obtain es' where len: "length es' = length (read_pofile h p)"
    and heap: "snd (get_pofile_with_english_msgids_st dflt self p e h) =
             h\<lparr>entry_objs := entry_objs h @ es',
                pofile_objs := pofile_objs h @
                  [[length (entry_objs h) ..< length (entry_objs h) + length (read_pofile h p)]]\<rparr>"
    and res: "case get_pofile_with_english_msgids dflt self (read_pofile h p) (read_pofile h e) of
              Inr out \<Rightarrow>
                fst (get_pofile_with_english_msgids_st dflt self p e h) = Inr (length (pofile_objs h)) \<and>
                es' = out
            | Inl err \<Rightarrow> fst (get_pofile_with_english_msgids_st dflt self p e h) = Inl err"
    by blast
  have len': "length es' = length (pofile_objs h ! p)"
    using len by (simp add: read_pofile_def)
  show thesis
  proof (cases "get_pofile_with_english_msgids dflt self (read_pofile h p) (read_pofile h e)")
    case (Inl err)
    with res have "fst (get_pofile_with_english_msgids_st dflt self p e h) = Inl err"
      by simp
    with heap len have "get_pofile_with_english_msgids_st dflt self p e h =
         (Inl err,
          h\<lparr>entry_objs := entry_objs h @ es',
             pofile_objs := pofile_objs h @
               [[length (entry_objs h) ..< length (entry_objs h) + length es']]\<rparr>)"
      by (simp add: prod_eq_iff)
    with Inl len' show thesis by (rule fail)
  next
    case (Inr out)
    with res have "fst (get_pofile_with_english_msgids_st dflt self p e h) =
        Inr (length (pofile_objs h))" and "es' = out"
      by simp_all
    with heap len have "get_pofile_with_english_msgids_st dflt self p e h =
         (Inr (length (pofile_objs h)),
          h\<lparr>entry_objs := entry_objs h @ out,
             pofile_objs := pofile_objs h @
               [[length (entry_objs h) ..< length (entry_objs h) + length out]]\<rparr>)"
      by (simp add: prod_eq_iff)
    with Inr len' \<open>es' = out\<close> show thesis by (auto intro: ok)
  qed
qed

lemma read_new_pofile:
  "read_pofile (h\<lparr>entry_objs := entry_objs h @ out,
             pofile_objs := pofile_objs h @
               [[length (entry_objs h) ..< length (entry_objs h) + length out]]\<rparr>)
     (length (pofile_objs h)) = out"
  by (simp add: read_pofile_def read_block del: upt_Suc)


lemma st_value:
  assumes "valid_pofile h p" and "distinct (pofile_objs h ! p)" and "valid_pofile h e"
    and run: "get_pofile_with_english_msgids_st dflt self p e h = (r, h')"
  shows "(\<exists>err. get_pofile_with_english_msgids dflt self (read_pofile h p) (read_pofile h e) =
                  Inl err \<and> r = Inl err) \<or>
         (\<exists>q. get_pofile_with_english_msgids dflt self (read_pofile h p) (read_pofile h e) =
                  Inr (read_pofile h' q) \<and> r = Inr q)"
proof (rule st_outcome [OF assms(1,2,3), of dflt self], goal_cases)
  case (1 out)
  from 1(3) run have r: "r = Inr (length (pofile_objs h))"
    and h': "h' = h\<lparr>entry_objs := entry_objs h @ out,
             pofile_objs := pofile_objs h @
               [[length (entry_objs h) ..< length (entry_objs h) + length out]]\<rparr>"
    by simp_all
  have "read_pofile h' (length (pofile_objs h)) = out"
    unfolding h' by (rule read_new_pofile)
  with 1(1) r show ?thesis by simp
next
  case (2 err es')
  from 2(3) run have "r = Inl err" by simp
  with 2(1) show ?thesis by simp
qed

subsection \<open>What the call leaves alone\<close>

lemma set_msgid_frame:
  "pofile_objs (set_msgid h a v) = pofile_objs h"
  "length (entry_objs (set_msgid h a v)) = length (entry_objs h)"
  "n0 \<le> a \<Longrightarrow> take n0 (entry_objs (set_msgid h a v)) = take n0 (entry_objs h)"
  by (simp_all add: set_msgid_def)

lemma set_msgstr_frame:
  "pofile_objs (set_msgstr h a v) = pofile_objs h"
  "length (entry_objs (set_msgstr h a v)) = length (entry_objs h)"
  "n0 \<le> a \<Longrightarrow> take n0 (entry_objs (set_msgstr h a v)) = take n0 (entry_objs h)"
  by (simp_all add: set_msgstr_def)

lemma loop_default_st_frame:
  assumes "\<forall>a\<in>set as. n0 \<le> a"
  shows "pofile_objs (loop_default_st h as) = pofile_objs h \<and>
         length (entry_objs (loop_default_st h as)) = length (entry_objs h) \<and>
         take n0 (entry_objs (loop_default_st h as)) = take n0 (entry_objs h)"
  using assms
  by (induction as arbitrary: h) (simp_all add: Let_def set_msgid_frame set_msgstr_frame)

lemma loop_translated_st_frame:
  assumes "\<forall>a\<in>set as. n0 \<le> a"
  shows "pofile_objs (snd (loop_translated_st d h as)) = pofile_objs h \<and>
         length (entry_objs (snd (loop_translated_st d h as))) = length (entry_objs h) \<and>
         take n0 (entry_objs (snd (loop_translated_st d h as))) = take n0 (entry_objs h)"
  using assms
  by (induction as arbitrary: h) (simp_all add: set_msgid_frame split: option.splits)

lemma deepcopy_entries_frame:
  assumes "\<forall>x\<in>set memo. n0 \<le> snd x \<and> snd x < length (entry_objs h)"
    and "n0 \<le> length (entry_objs h)"
  shows "pofile_objs (fst (deepcopy_entries h memo as)) = pofile_objs h \<and>
         length (entry_objs h) \<le> length (entry_objs (fst (deepcopy_entries h memo as))) \<and>
         take (length (entry_objs h)) (entry_objs (fst (deepcopy_entries h memo as))) =
           entry_objs h \<and>
         (\<forall>r\<in>set (snd (deepcopy_entries h memo as)).
            n0 \<le> r \<and> r < length (entry_objs (fst (deepcopy_entries h memo as))))"
  using assms
proof (induction as arbitrary: h memo)
  case Nil
  show ?case by simp
next
  case (Cons a as)
  show ?case
  proof (cases "map_of memo a")
    case (Some a')
    then have "(a, a') \<in> set memo" by (rule map_of_SomeD)
    with Cons.prems(1) have a': "n0 \<le> a' \<and> a' < length (entry_objs h)" by force
    from Cons.IH [OF Cons.prems] Some a' show ?thesis
      by (auto split: prod.splits)
  next
    case None
    let ?h1 = "h\<lparr>entry_objs := entry_objs h @ [entry_objs h ! a]\<rparr>"
    let ?memo = "(a, length (entry_objs h)) # memo"
    have m: "\<forall>x\<in>set ?memo. n0 \<le> snd x \<and> snd x < length (entry_objs ?h1)"
      using Cons.prems by auto
    have n: "n0 \<le> length (entry_objs ?h1)"
      using Cons.prems(2) by simp
    let ?res = "deepcopy_entries ?h1 ?memo as"
    from Cons.IH [OF m n]
    have IH: "pofile_objs (fst ?res) = pofile_objs ?h1"
      "length (entry_objs ?h1) \<le> length (entry_objs (fst ?res))"
      "take (length (entry_objs ?h1)) (entry_objs (fst ?res)) = entry_objs ?h1"
      "\<forall>r\<in>set (snd ?res). n0 \<le> r \<and> r < length (entry_objs (fst ?res))"
      by blast+
    have res: "deepcopy_entries h memo (a # as) = (fst ?res, length (entry_objs h) # snd ?res)"
      using None by (simp add: Let_def split: prod.splits)
    have "take (length (entry_objs h)) (entry_objs (fst ?res)) =
          take (length (entry_objs h)) (take (length (entry_objs ?h1)) (entry_objs (fst ?res)))"
      by (simp add: min_def)
    also have "\<dots> = entry_objs h"
      unfolding IH(3) by simp
    finally have t: "take (length (entry_objs h)) (entry_objs (fst ?res)) = entry_objs h" .
    from IH(1,2,4) t Cons.prems(2) show ?thesis
      unfolding res by auto
  qed
qed

lemma st_frame:
  assumes "get_pofile_with_english_msgids_st dflt self p e h = (r, h')"
  shows "pofile_objs h' = pofile_objs h @ [pofile_objs h' ! length (pofile_objs h)] \<and>
         length (entry_objs h) \<le> length (entry_objs h') \<and>
         take (length (entry_objs h)) (entry_objs h') = entry_objs h \<and>
         (\<forall>a\<in>set (pofile_objs h' ! length (pofile_objs h)).
            length (entry_objs h) \<le> a \<and> a < length (entry_objs h')) \<and>
         (\<forall>p'. r = Inr p' \<longrightarrow> p' = length (pofile_objs h))"
proof -
  let ?n = "length (entry_objs h)"
  let ?c = "deepcopy_entries h [] (pofile_objs h ! p)"
  let ?refs = "snd ?c"
  let ?h1 = "(fst ?c)\<lparr>pofile_objs := pofile_objs (fst ?c) @ [?refs]\<rparr>"
  have c: "pofile_objs (fst ?c) = pofile_objs h"
    "?n \<le> length (entry_objs (fst ?c))"
    "take ?n (entry_objs (fst ?c)) = entry_objs h"
    "\<forall>r\<in>set ?refs. ?n \<le> r \<and> r < length (entry_objs (fst ?c))"
    using deepcopy_entries_frame [of "[]" ?n h "pofile_objs h ! p"] by simp_all
  have copy: "deepcopy h p = (?h1, length (pofile_objs h))"
    using c(1) by (simp add: deepcopy_def case_prod_unfold)
  have new: "pofile_objs ?h1 ! length (pofile_objs h) = ?refs"
    by (simp add: c(1))
  have po1: "pofile_objs ?h1 = pofile_objs h @ [?refs]"
    by (simp add: c(1))
  have above: "\<forall>a\<in>set ?refs. ?n \<le> a" using c(4) by blast
  show ?thesis
  proof (cases "language_code self = dflt")
    case True
    let ?h2 = "loop_default_st ?h1 ?refs"
    from True copy new assms have r: "r = Inr (length (pofile_objs h))" and h': "h' = ?h2"
      by (simp_all add: get_pofile_with_english_msgids_st_def)
    from loop_default_st_frame [OF above, of ?h1]
    have f: "pofile_objs ?h2 = pofile_objs ?h1"
      "length (entry_objs ?h2) = length (entry_objs ?h1)"
      "take ?n (entry_objs ?h2) = take ?n (entry_objs ?h1)"
      by blast+
    from f po1 c r show ?thesis
      unfolding h' by simp
  next
    case False
    let ?d = "internal_key_to_english_message (read_pofile ?h1 e)"
    let ?l = "loop_translated_st ?d ?h1 ?refs"
    from False copy new assms have h': "h' = snd ?l"
      and r: "\<forall>p'. r = Inr p' \<longrightarrow> p' = length (pofile_objs h)"
      by (auto simp: get_pofile_with_english_msgids_st_def Let_def split: prod.splits option.splits)
    from loop_translated_st_frame [OF above, of ?d ?h1]
    have f: "pofile_objs (snd ?l) = pofile_objs ?h1"
      "length (entry_objs (snd ?l)) = length (entry_objs ?h1)"
      "take ?n (entry_objs (snd ?l)) = take ?n (entry_objs ?h1)"
      by blast+
    from f po1 c r show ?thesis
      unfolding h' by simp
  qed
qed


section \<open>Isolation of the copy\<close>

text \<open>
  C5: run on a store in which the catalog of the legal code and the English catalog are
  allocated, the call changes no object that existed before it: every entry object and
  every catalog object of the old store, and so both input catalogs, read the same
  afterwards.  A returned catalog is a catalog object allocated by the call, different
  from both inputs, whose entries are entry objects allocated by the call, none of them
  an entry of an input; when every entry object is listed once in the catalog of the
  legal code, the returned catalog reads as the catalog that the method computes on
  values.
\<close>

theorem deepcopy_isolation:
  assumes "valid_pofile h p" and "valid_pofile h e"
    and "get_pofile_with_english_msgids_st dflt self p e h = (r, h')"
  shows "(\<forall>a<length (entry_objs h). entry_objs h' ! a = entry_objs h ! a) \<and>
         (\<forall>q<length (pofile_objs h). pofile_objs h' ! q = pofile_objs h ! q) \<and>
         read_pofile h' p = read_pofile h p \<and> read_pofile h' e = read_pofile h e \<and>
         (\<forall>p'. r = Inr p' \<longrightarrow>
            p' \<noteq> p \<and> p' \<noteq> e \<and> length (pofile_objs h) \<le> p' \<and> valid_pofile h' p' \<and>
            (\<forall>a\<in>set (pofile_objs h' ! p'). length (entry_objs h) \<le> a) \<and>
            set (pofile_objs h' ! p') \<inter> (set (pofile_objs h ! p) \<union> set (pofile_objs h ! e)) = {} \<and>
            (distinct (pofile_objs h ! p) \<longrightarrow>
               get_pofile_with_english_msgids dflt self (read_pofile h p) (read_pofile h e) =
                 Inr (read_pofile h' p')))"
proof -
  let ?n = "length (entry_objs h)"
  let ?new = "length (pofile_objs h)"
  from st_frame [OF assms(3)]
  have po: "pofile_objs h' = pofile_objs h @ [pofile_objs h' ! ?new]"
    and len: "?n \<le> length (entry_objs h')"
    and tk: "take ?n (entry_objs h') = entry_objs h"
    and refs: "\<forall>a\<in>set (pofile_objs h' ! ?new). ?n \<le> a \<and> a < length (entry_objs h')"
    and r: "\<forall>p'. r = Inr p' \<longrightarrow> p' = ?new"
    by blast+
  have old_e: "entry_objs h' ! a = entry_objs h ! a" if "a < ?n" for a
  proof -
    from that have "take ?n (entry_objs h') ! a = entry_objs h' ! a" by simp
    with tk show ?thesis by simp
  qed
  have old_p: "pofile_objs h' ! q = pofile_objs h ! q" if "q < ?new" for q
  proof -
    from that have "(pofile_objs h @ [pofile_objs h' ! ?new]) ! q = pofile_objs h ! q"
      by (simp add: nth_append)
    with po show ?thesis by simp
  qed
  have rd: "read_pofile h' q = read_pofile h q" if "valid_pofile h q" for q
  proof -
    from that have q: "q < ?new" and es: "\<forall>a\<in>set (pofile_objs h ! q). a < ?n"
      by (simp_all add: valid_pofile_def)
    from old_p [OF q] es old_e show ?thesis
      by (simp add: read_pofile_def)
  qed
  have below: "\<forall>a\<in>set (pofile_objs h ! p) \<union> set (pofile_objs h ! e). a < ?n"
    using assms(1,2) by (auto simp: valid_pofile_def)
  have fresh: "?new \<noteq> p" "?new \<noteq> e"
    using assms(1,2) by (auto simp: valid_pofile_def)
  have "length (pofile_objs h') = Suc ?new"
    using po by (metis length_append_singleton)
  with refs have valid: "valid_pofile h' ?new"
    by (simp add: valid_pofile_def)
  have disj: "set (pofile_objs h' ! ?new) \<inter>
                (set (pofile_objs h ! p) \<union> set (pofile_objs h ! e)) = {}"
  proof (rule ccontr)
    assume "set (pofile_objs h' ! ?new) \<inter>
                (set (pofile_objs h ! p) \<union> set (pofile_objs h ! e)) \<noteq> {}"
    then obtain a where "a \<in> set (pofile_objs h' ! ?new)"
      and "a \<in> set (pofile_objs h ! p) \<union> set (pofile_objs h ! e)"
      by blast
    with refs below have "?n \<le> a" and "a < ?n" by blast+
    then show False by simp
  qed
  have val: "get_pofile_with_english_msgids dflt self (read_pofile h p) (read_pofile h e) =
                 Inr (read_pofile h' ?new)"
    if "distinct (pofile_objs h ! p)" and "r = Inr ?new"
    using st_value [OF assms(1) that(1) assms(2,3)] that(2) by auto
  have "p' \<noteq> p \<and> p' \<noteq> e \<and> length (pofile_objs h) \<le> p' \<and> valid_pofile h' p' \<and>
            (\<forall>a\<in>set (pofile_objs h' ! p'). length (entry_objs h) \<le> a) \<and>
            set (pofile_objs h' ! p') \<inter> (set (pofile_objs h ! p) \<union> set (pofile_objs h ! e)) = {} \<and>
            (distinct (pofile_objs h ! p) \<longrightarrow>
               get_pofile_with_english_msgids dflt self (read_pofile h p) (read_pofile h e) =
                 Inr (read_pofile h' p'))" if "r = Inr p'" for p'
  proof -
    from r that have p': "p' = ?new" by simp
    show ?thesis
      unfolding p' using fresh valid disj refs val that p' by auto
  qed
  with old_e old_p rd [OF assms(1)] rd [OF assms(2)] show ?thesis by blast
qed

theorem deepcopy_isolation_witness:
  "valid_pofile
     \<lparr>entry_objs = [\<lparr>msgid = ''s1a'', msgstr = ''Adapte''\<rparr>,
                    \<lparr>msgid = ''s1a'', msgstr = ''Adapted Material''\<rparr>],
      pofile_objs = [[0], [1]]\<rparr> 0 \<and>
   valid_pofile
     \<lparr>entry_objs = [\<lparr>msgid = ''s1a'', msgstr = ''Adapte''\<rparr>,
                    \<lparr>msgid = ''s1a'', msgstr = ''Adapted Material''\<rparr>],
      pofile_objs = [[0], [1]]\<rparr> 1 \<and>
   get_pofile_with_english_msgids_st ''en'' (by4_in ''fr'') 0 1
     \<lparr>entry_objs = [\<lparr>msgid = ''s1a'', msgstr = ''Adapte''\<rparr>,
                    \<lparr>msgid = ''s1a'', msgstr = ''Adapted Material''\<rparr>],
      pofile_objs = [[0], [1]]\<rparr> =
   (Inr 2,
     \<lparr>entry_objs = [\<lparr>msgid = ''s1a'', msgstr = ''Adapte''\<rparr>,
                    \<lparr>msgid = ''s1a'', msgstr = ''Adapted Material''\<rparr>,
                    \<lparr>msgid = ''Adapted Material'', msgstr = ''Adapte''\<rparr>],
      pofile_objs = [[0], [1], [2]]\<rparr>) \<and>
   read_pofile
     \<lparr>entry_objs = [\<lparr>msgid = ''s1a'', msgstr = ''Adapte''\<rparr>,
                    \<lparr>msgid = ''s1a'', msgstr = ''Adapted Material''\<rparr>,
                    \<lparr>msgid = ''Adapted Material'', msgstr = ''Adapte''\<rparr>],
      pofile_objs = [[0], [1], [2]]\<rparr> 0 = [\<lparr>msgid = ''s1a'', msgstr = ''Adapte''\<rparr>] \<and>
   read_pofile
     \<lparr>entry_objs = [\<lparr>msgid = ''s1a'', msgstr = ''Adapte''\<rparr>,
                    \<lparr>msgid = ''s1a'', msgstr = ''Adapted Material''\<rparr>,
                    \<lparr>msgid = ''Adapted Material'', msgstr = ''Adapte''\<rparr>],
      pofile_objs = [[0], [1], [2]]\<rparr> 1 =
     [\<lparr>msgid = ''s1a'', msgstr = ''Adapted Material''\<rparr>]"
proof -
  let ?h = "\<lparr>entry_objs = [\<lparr>msgid = ''s1a'', msgstr = ''Adapte''\<rparr>,
                    \<lparr>msgid = ''s1a'', msgstr = ''Adapted Material''\<rparr>],
      pofile_objs = [[0], [1]]\<rparr>"
  let ?h' = "\<lparr>entry_objs = [\<lparr>msgid = ''s1a'', msgstr = ''Adapte''\<rparr>,
                    \<lparr>msgid = ''s1a'', msgstr = ''Adapted Material''\<rparr>,
                    \<lparr>msgid = ''Adapted Material'', msgstr = ''Adapte''\<rparr>],
      pofile_objs = [[0], [1], [2]]\<rparr>"
  have v1: "valid_pofile ?h 0" by (simp add: valid_pofile_def)
  have v2: "valid_pofile ?h 1" by (simp add: valid_pofile_def)
  have run: "get_pofile_with_english_msgids_st ''en'' (by4_in ''fr'') 0 1 ?h = (Inr 2, ?h')"
    by (simp add: get_pofile_with_english_msgids_st_def deepcopy_def read_pofile_def
        set_msgid_def internal_key_to_english_message_def)
  from deepcopy_isolation [OF v1 v2 run]
  have "read_pofile ?h' 0 = read_pofile ?h 0 \<and> read_pofile ?h' 1 = read_pofile ?h 1"
    by blast
  then have "read_pofile ?h' 0 = [\<lparr>msgid = ''s1a'', msgstr = ''Adapte''\<rparr>] \<and>
             read_pofile ?h' 1 = [\<lparr>msgid = ''s1a'', msgstr = ''Adapted Material''\<rparr>]"
    by (simp add: read_pofile_def)
  with v1 v2 run show ?thesis by blast
qed

section \<open>The method on catalogs that list every entry object once\<close>



















section \<open>Order and shape of the result\<close>




section \<open>Duplicate keys in the English catalog\<close>





section \<open>Determinism\<close>




section \<open>Branch names\<close>













end
